theory Spec2Isabelle
  imports
    Complex_Main
    "HOL-Library.Word"
    "HOL-Library.Log_Nat"
    "HOL-Library.Multiset"
    "HOL-Library.Product_Lexorder"
begin

section \<open>Numeric values\<close>

text \<open>
  The script \<^verbatim>\<open>app.py\<close> works on a pandas DataFrame whose numeric columns are stored by
  numpy as \<^verbatim>\<open>int64\<close> or as \<^verbatim>\<open>float64\<close>, and every operator of the script is numpy's
  operation on these types. This section models the two types and the operations the
  script uses.
\<close>

subsection \<open>float64\<close>

text \<open>
  A float64 value is a finite number, an infinity or NaN; finite values are kept as the
  real number they denote (zero has no sign here). The result of an arithmetic operation
  is the exact result rounded to the nearest double, ties to the even significand
  (\<open>rnd\<close>): 53 significant bits, the smallest spacing \<open>2 ^ -1074\<close>, and an infinity from
  \<open>2 ^ 1024 - 2 ^ 970\<close> upwards. Infinities and NaN follow IEEE 754: \<open>x / 0\<close> is an
  infinity, \<open>0 / 0\<close> and \<open>inf - inf\<close> are NaN, NaN propagates, and every comparison with
  NaN is false.
\<close>

datatype fval = Fin real | PInf | NInf | NaN

definition inf_of_sign :: "bool \<Rightarrow> fval" where
  "inf_of_sign positive = (if positive then PInf else NInf)"

text \<open>Rounding to the nearest integer, ties to even: C's \<^verbatim>\<open>rint\<close>.\<close>

definition rint :: "real \<Rightarrow> int" where
  "rint x =
     (let f = \<lfloor>x\<rfloor>; d = x - of_int f
      in if d < 1 / 2 then f else if 1 / 2 < d then f + 1 else if even f then f else f + 1)"

text \<open>\<open>ilog2 x\<close> is the integer \<open>k\<close> with \<open>2 ^ k \<le> x < 2 ^ (k + 1)\<close>, for positive \<open>x\<close>.\<close>

definition ilog2 :: "real \<Rightarrow> int" where
  "ilog2 x = (if 1 \<le> x then bitlen \<lfloor>x\<rfloor> - 1 else - bitlen (\<lceil>1 / x\<rceil> - 1))"

text \<open>The exponent of the spacing of the doubles around \<open>x\<close>.\<close>

definition float_exp :: "real \<Rightarrow> int" where
  "float_exp x = (if x = 0 then - 1074 else max (ilog2 \<bar>x\<bar> - 52) (- 1074))"

definition rnd :: "real \<Rightarrow> fval" where
  "rnd x =
     (let e = float_exp x; y = of_int (rint (x / 2 powi e)) * 2 powi e
      in if 2 ^ 1024 \<le> \<bar>y\<bar> then inf_of_sign (0 < x) else Fin y)"

fun fneg :: "fval \<Rightarrow> fval" where
  "fneg (Fin a) = Fin (- a)"
| "fneg PInf = NInf"
| "fneg NInf = PInf"
| "fneg NaN = NaN"

fun fadd :: "fval \<Rightarrow> fval \<Rightarrow> fval" where
  "fadd (Fin a) (Fin b) = rnd (a + b)"
| "fadd NaN _ = NaN"
| "fadd _ NaN = NaN"
| "fadd PInf NInf = NaN"
| "fadd NInf PInf = NaN"
| "fadd PInf _ = PInf"
| "fadd _ PInf = PInf"
| "fadd NInf _ = NInf"
| "fadd _ NInf = NInf"

definition fsub :: "fval \<Rightarrow> fval \<Rightarrow> fval" where
  "fsub a b = fadd a (fneg b)"

fun fmul :: "fval \<Rightarrow> fval \<Rightarrow> fval" where
  "fmul (Fin a) (Fin b) = rnd (a * b)"
| "fmul NaN _ = NaN"
| "fmul _ NaN = NaN"
| "fmul (Fin a) PInf = (if a = 0 then NaN else inf_of_sign (0 < a))"
| "fmul (Fin a) NInf = (if a = 0 then NaN else inf_of_sign (a < 0))"
| "fmul PInf (Fin b) = (if b = 0 then NaN else inf_of_sign (0 < b))"
| "fmul NInf (Fin b) = (if b = 0 then NaN else inf_of_sign (b < 0))"
| "fmul PInf PInf = PInf"
| "fmul PInf NInf = NInf"
| "fmul NInf PInf = NInf"
| "fmul NInf NInf = PInf"

fun fdiv :: "fval \<Rightarrow> fval \<Rightarrow> fval" where
  "fdiv (Fin a) (Fin b) =
     (if b \<noteq> 0 then rnd (a / b) else if a = 0 then NaN else inf_of_sign (0 < a))"
| "fdiv NaN _ = NaN"
| "fdiv _ NaN = NaN"
| "fdiv (Fin a) PInf = Fin 0"
| "fdiv (Fin a) NInf = Fin 0"
| "fdiv PInf (Fin b) = inf_of_sign (0 \<le> b)"
| "fdiv NInf (Fin b) = inf_of_sign (b < 0)"
| "fdiv PInf PInf = NaN"
| "fdiv PInf NInf = NaN"
| "fdiv NInf PInf = NaN"
| "fdiv NInf NInf = NaN"

fun fgt :: "fval \<Rightarrow> fval \<Rightarrow> bool" where
  "fgt (Fin a) (Fin b) = (b < a)"
| "fgt NaN _ = False"
| "fgt _ NaN = False"
| "fgt PInf PInf = False"
| "fgt PInf _ = True"
| "fgt NInf _ = False"
| "fgt (Fin a) PInf = False"
| "fgt (Fin a) NInf = True"

fun fge :: "fval \<Rightarrow> fval \<Rightarrow> bool" where
  "fge (Fin a) (Fin b) = (b \<le> a)"
| "fge NaN _ = False"
| "fge _ NaN = False"
| "fge PInf _ = True"
| "fge NInf NInf = True"
| "fge NInf _ = False"
| "fge (Fin a) PInf = False"
| "fge (Fin a) NInf = True"

text \<open>
  \<^verbatim>\<open>Series.round(3)\<close> is numpy's \<^verbatim>\<open>around\<close>: multiply by \<open>10 ^ 3\<close>, apply \<^verbatim>\<open>rint\<close>, divide
  by \<open>10 ^ 3\<close>, each step a float64 operation.
\<close>

fun frint :: "fval \<Rightarrow> fval" where
  "frint (Fin a) = Fin (of_int (rint a))"
| "frint v = v"

definition fround :: "nat \<Rightarrow> fval \<Rightarrow> fval" where
  "fround digits v = fdiv (frint (fmul v (Fin (10 ^ digits)))) (Fin (10 ^ digits))"

subsection \<open>int64 and float64 cells\<close>

text \<open>
  A cell is an \<^verbatim>\<open>int64\<close> (a 64-bit word read as a signed number, whose arithmetic wraps
  around) or a \<^verbatim>\<open>float64\<close>; a missing value is the float64 NaN. In a frame read by pandas
  all cells of one column have the same type. Between two \<^verbatim>\<open>int64\<close> operands \<open>+\<close> and
  \<open>-\<close> are the wrapping machine operations; when a float64 takes part, the \<^verbatim>\<open>int64\<close>
  operand is converted to float64 first; \<open>/\<close> is true division and always converts.
\<close>

datatype pvalue = I64 "64 word" | F64 fval

fun to_float :: "pvalue \<Rightarrow> fval" where
  "to_float (I64 w) = rnd (real_of_int (sint w))"
| "to_float (F64 f) = f"

definition isna :: "pvalue \<Rightarrow> bool" where
  "isna v = (v = F64 NaN)"

fun vadd :: "pvalue \<Rightarrow> pvalue \<Rightarrow> pvalue" where
  "vadd (I64 a) (I64 b) = I64 (a + b)"
| "vadd a b = F64 (fadd (to_float a) (to_float b))"

fun vsub :: "pvalue \<Rightarrow> pvalue \<Rightarrow> pvalue" where
  "vsub (I64 a) (I64 b) = I64 (a - b)"
| "vsub a b = F64 (fsub (to_float a) (to_float b))"

text \<open>\<^verbatim>\<open>series + 1\<close>: the Python integer takes the type of the column.\<close>

fun vadd_one :: "pvalue \<Rightarrow> pvalue" where
  "vadd_one (I64 a) = I64 (a + 1)"
| "vadd_one (F64 f) = F64 (fadd f (Fin 1))"

definition vdiv :: "pvalue \<Rightarrow> pvalue \<Rightarrow> fval" where
  "vdiv a b = fdiv (to_float a) (to_float b)"

text \<open>\<^verbatim>\<open>series >= 0\<close>: the Python integer takes the type of the column.\<close>

fun vge_zero :: "pvalue \<Rightarrow> bool" where
  "vge_zero (I64 a) = (0 \<le> sint a)"
| "vge_zero (F64 f) = fge f (Fin 0)"

section \<open>Data frames\<close>

text \<open>
  A DataFrame is its header (the column names, in order, distinct) and its rows; a row
  holds one cell per column, in the order of the header. The frame the functions below
  take is \<^verbatim>\<open>df\<close> as it stands after line 17, read and with its header names trimmed.
  The only exceptions the modelled lines can raise are pandas' \<^verbatim>\<open>KeyError\<close> on a column
  that is not in the frame (the spec calls it \<^verbatim>\<open>SchemaError\<close>) and the \<^verbatim>\<open>ValueError\<close> of
  \<^verbatim>\<open>quantile\<close> on a fraction outside \<open>[0, 1]\<close>.
\<close>

record dataframe =
  columns :: "string list"
  rows :: "pvalue list list"

datatype error = KeyError string | ValueError

fun index_of :: "'a \<Rightarrow> 'a list \<Rightarrow> nat" where
  "index_of x [] = 0"
| "index_of x (y # ys) = (if x = y then 0 else Suc (index_of x ys))"

text \<open>\<^verbatim>\<open>df[col]\<close>: the column as a Series, or \<^verbatim>\<open>KeyError\<close>.\<close>

definition getcol :: "dataframe \<Rightarrow> string \<Rightarrow> error + pvalue list" where
  "getcol df col =
     (if col \<in> set (columns df)
      then Inr (map (\<lambda>r. r ! index_of col (columns df)) (rows df))
      else Inl (KeyError col))"

text \<open>\<^verbatim>\<open>df[mask]\<close>: the rows at which the boolean Series is true.\<close>

definition boolean_index :: "dataframe \<Rightarrow> bool list \<Rightarrow> dataframe" where
  "boolean_index df keep = df\<lparr>rows := map fst (filter snd (zip (rows df) keep))\<rparr>"

subsection \<open>Cleaning (lines 26 to 39)\<close>

definition dropna :: "dataframe \<Rightarrow> dataframe" where
  "dropna df = df\<lparr>rows := filter (\<lambda>r. \<not> list_ex isna r) (rows df)\<rparr>"

text \<open>
  \<^verbatim>\<open>drop_duplicates()\<close> keeps the first occurrence of every row: it is
  \<^verbatim>\<open>df[~df.duplicated()]\<close>, where a row is marked when an equal row stands before it.
\<close>

fun duplicated :: "'a list \<Rightarrow> 'a list \<Rightarrow> bool list" where
  "duplicated seen [] = []"
| "duplicated seen (x # xs) = (x \<in> set seen) # duplicated (x # seen) xs"

definition drop_duplicates :: "dataframe \<Rightarrow> dataframe" where
  "drop_duplicates df = boolean_index df (map Not (duplicated [] (rows df)))"

definition numeric_cols :: "string list" where
  "numeric_cols =
     [''size'', ''tx_count'', ''difficulty'',
      ''median_fee_rate'', ''avg_fee_rate'', ''total_fees'',
      ''fee_range_min'', ''fee_range_max'',
      ''input_count'', ''output_count'', ''output_amount'']"

text \<open>One pass of the loop body \<^verbatim>\<open>df = df[df[col] >= 0]\<close>.\<close>

definition keep_nonneg :: "string \<Rightarrow> dataframe \<Rightarrow> error + dataframe" where
  "keep_nonneg col df =
     (case getcol df col of
        Inl e \<Rightarrow> Inl e
      | Inr s \<Rightarrow> Inr (boolean_index df (map vge_zero s)))"

fun filter_nonneg :: "string list \<Rightarrow> dataframe \<Rightarrow> error + dataframe" where
  "filter_nonneg [] df = Inr df"
| "filter_nonneg (col # cols) df =
     (case keep_nonneg col df of
        Inl e \<Rightarrow> Inl e
      | Inr df' \<Rightarrow> filter_nonneg cols df')"

definition clean :: "dataframe \<Rightarrow> error + dataframe" where
  "clean df =
     (let df1 = dropna df;
          df2 = drop_duplicates df1;
          cols = filter (\<lambda>col. col \<in> set (columns df2)) numeric_cols
      in filter_nonneg cols df2)"

subsection \<open>Feature engineering (lines 46 to 48)\<close>

text \<open>
  The three assignments read their columns from left to right, so the first column that
  is missing, in the order \<^verbatim>\<open>fee_range_max\<close>, \<^verbatim>\<open>fee_range_min\<close>, \<^verbatim>\<open>input_count\<close>,
  \<^verbatim>\<open>output_count\<close>, \<^verbatim>\<open>total_fees\<close>, \<^verbatim>\<open>tx_count\<close>, is the one the \<^verbatim>\<open>KeyError\<close> names.
  The result is the triple of the new columns \<^verbatim>\<open>fee_spread\<close>, \<^verbatim>\<open>tx_complexity\<close> and
  \<^verbatim>\<open>fee_per_tx\<close>.
\<close>

definition derive_features ::
  "dataframe \<Rightarrow> error + (pvalue list \<times> pvalue list \<times> pvalue list)" where
  "derive_features df =
     (case getcol df ''fee_range_max'' of Inl e \<Rightarrow> Inl e | Inr fee_max \<Rightarrow>
      case getcol df ''fee_range_min'' of Inl e \<Rightarrow> Inl e | Inr fee_min \<Rightarrow>
      case getcol df ''input_count'' of Inl e \<Rightarrow> Inl e | Inr inputs \<Rightarrow>
      case getcol df ''output_count'' of Inl e \<Rightarrow> Inl e | Inr outputs \<Rightarrow>
      case getcol df ''total_fees'' of Inl e \<Rightarrow> Inl e | Inr fees \<Rightarrow>
      case getcol df ''tx_count'' of Inl e \<Rightarrow> Inl e | Inr txs \<Rightarrow>
        Inr (map2 vsub fee_max fee_min,
             map2 vadd inputs outputs,
             map F64 (map2 vdiv fees (map vadd_one txs))))"

subsection \<open>Anomaly detection (lines 68 to 76)\<close>

text \<open>
  The values of a Series without its NaN, in ascending order. The order is that of the
  numbers; the third component of the key only separates an \<^verbatim>\<open>int64\<close> from a float64 of
  the same value, which do not meet in one column.
\<close>

fun sort_key_of :: "pvalue \<Rightarrow> int \<times> real \<times> bool" where
  "sort_key_of (I64 w) = (0, real_of_int (sint w), False)"
| "sort_key_of (F64 (Fin r)) = (0, r, True)"
| "sort_key_of (F64 NInf) = (- 1, 0, True)"
| "sort_key_of (F64 PInf) = (1, 0, True)"
| "sort_key_of (F64 NaN) = (2, 0, True)"

definition sort_values :: "pvalue list \<Rightarrow> pvalue list" where
  "sort_values xs = sort_key sort_key_of (filter (\<lambda>v. \<not> isna v) xs)"

text \<open>
  \<^verbatim>\<open>Series.quantile(q)\<close>: a fraction outside \<open>[0, 1]\<close> raises \<^verbatim>\<open>ValueError\<close>; on a Series
  with no value but NaN the result is NaN; otherwise pandas hands the values to numpy's
  \<^verbatim>\<open>percentile\<close>, which sorts them and interpolates linearly between two neighbouring
  order statistics. The float64 arithmetic of that interpolation is numpy's own and
  has changed between its versions, so it is the parameter \<open>interp\<close> here: it is given the
  sorted values and the fraction.
\<close>

definition quantile ::
  "(pvalue list \<Rightarrow> fval \<Rightarrow> fval) \<Rightarrow> pvalue list \<Rightarrow> fval \<Rightarrow> error + fval" where
  "quantile interp xs q =
     (if fge q (Fin 0) \<and> fge (Fin 1) q
      then (case sort_values xs of [] \<Rightarrow> Inr NaN | v # vs \<Rightarrow> Inr (interp (v # vs) q))
      else Inl ValueError)"

text \<open>
  \<^verbatim>\<open>percentile / 100\<close> divides two Python integers: the exact quotient rounded to a
  float64. A column is compared with a threshold, a float64 scalar, as float64.
\<close>

definition flag_anomalies ::
  "(pvalue list \<Rightarrow> fval \<Rightarrow> fval) \<Rightarrow> pvalue list \<Rightarrow> pvalue list \<Rightarrow> pvalue list \<Rightarrow> int \<Rightarrow>
     error + (fval \<times> fval \<times> fval \<times> bool list)" where
  "flag_anomalies interp fee_spread_col tx_complexity_col fee_per_tx_col percentile =
     (let q = fdiv (Fin (of_int percentile)) (Fin 100) in
      case quantile interp fee_spread_col q of Inl e \<Rightarrow> Inl e | Inr t1 \<Rightarrow>
      case quantile interp tx_complexity_col q of Inl e \<Rightarrow> Inl e | Inr t2 \<Rightarrow>
      case quantile interp fee_per_tx_col q of Inl e \<Rightarrow> Inl e | Inr t3 \<Rightarrow>
        Inr (t1, t2, t3,
             map2 (\<or>)
               (map2 (\<or>) (map (\<lambda>v. fgt (to_float v) t1) fee_spread_col)
                          (map (\<lambda>v. fgt (to_float v) t2) tx_complexity_col))
               (map (\<lambda>v. fgt (to_float v) t3) fee_per_tx_col)))"

subsection \<open>Risk scoring (lines 92 to 98)\<close>

text \<open>
  \<^verbatim>\<open>Series.max()\<close> skips NaN and is the largest remaining value, NaN when nothing is
  left.
\<close>

definition smax :: "pvalue list \<Rightarrow> pvalue" where
  "smax xs = (case sort_values xs of [] \<Rightarrow> F64 NaN | v # vs \<Rightarrow> last (v # vs))"

text \<open>The literals \<^verbatim>\<open>0.4\<close> and \<^verbatim>\<open>0.3\<close> are the doubles nearest to 4/10 and 3/10.\<close>

definition score_risk :: "pvalue list \<Rightarrow> pvalue list \<Rightarrow> pvalue list \<Rightarrow> fval list" where
  "score_risk fee_spread_col tx_complexity_col fee_per_tx_col =
     map (fround 3)
       (map2 fadd
          (map2 fadd
             (map (fmul (rnd (4 / 10)))
                (map (\<lambda>v. vdiv v (smax fee_spread_col)) fee_spread_col))
             (map (fmul (rnd (3 / 10)))
                (map (\<lambda>v. vdiv v (smax tx_complexity_col)) tx_complexity_col)))
          (map (fmul (rnd (3 / 10)))
             (map (\<lambda>v. vdiv v (smax fee_per_tx_col)) fee_per_tx_col)))"

subsection \<open>The pipeline\<close>

text \<open>
  The state of the script after line 98: the cleaned frame, the five columns added to
  it, and the three thresholds.
\<close>

record augmented =
  frame :: dataframe
  fee_spread :: "pvalue list"
  tx_complexity :: "pvalue list"
  fee_per_tx :: "pvalue list"
  fee_spread_thresh :: fval
  complexity_thresh :: fval
  fee_tx_thresh :: fval
  suspicious :: "bool list"
  risk_score :: "fval list"

definition run_pipeline ::
  "(pvalue list \<Rightarrow> fval \<Rightarrow> fval) \<Rightarrow> dataframe \<Rightarrow> int \<Rightarrow> error + augmented" where
  "run_pipeline interp raw percentile =
     (case clean raw of Inl e \<Rightarrow> Inl e | Inr df \<Rightarrow>
      case derive_features df of Inl e \<Rightarrow> Inl e | Inr (fs, tc, fp) \<Rightarrow>
      case flag_anomalies interp fs tc fp percentile of Inl e \<Rightarrow> Inl e
      | Inr (t1, t2, t3, flags) \<Rightarrow>
        Inr \<lparr>frame = df, fee_spread = fs, tx_complexity = tc, fee_per_tx = fp,
             fee_spread_thresh = t1, complexity_thresh = t2, fee_tx_thresh = t3,
             suspicious = flags, risk_score = score_risk fs tc fp\<rparr>)"

text \<open>
  The interpolation of numpy 1.22 and later, used in the examples: with \<open>n\<close> sorted
  values the position is \<open>(n - 1) * q\<close>, \<open>lo\<close> its integer part and \<open>t\<close> the rest; the
  result is \<open>a + (b - a) * t\<close> for \<open>t < 1/2\<close> and \<open>b - (b - a) * (1 - t)\<close> otherwise, where
  \<open>a\<close> and \<open>b\<close> are the values at \<open>lo\<close> and \<open>lo + 1\<close>. pandas passes the fraction as a
  percentage, which numpy divides by 100 again.
\<close>

definition numpy_linear :: "pvalue list \<Rightarrow> fval \<Rightarrow> fval" where
  "numpy_linear vs q =
     (let n = length vs;
          h = fmul (Fin (real (n - 1))) (fdiv (fmul q (Fin 100)) (Fin 100))
      in case h of
           Fin hr \<Rightarrow>
             (let lo = nat \<lfloor>hr\<rfloor>;
                  hi = min (lo + 1) (n - 1);
                  t = fsub h (Fin (real lo));
                  a = vs ! min lo (n - 1);
                  b = vs ! hi;
                  d = to_float (vsub b a)
              in if fge t (Fin (1 / 2))
                 then fsub (to_float b) (fmul d (fsub (Fin 1) t))
                 else fadd (to_float a) (fmul d t))
         | _ \<Rightarrow> NaN)"

section \<open>Row-wise reading of the columns\<close>

text \<open>
  The script computes column by column. The definitions of this section say what the
  same computation is for one row; the lemmas below connect the two.
\<close>

definition field :: "string list \<Rightarrow> string \<Rightarrow> pvalue list \<Rightarrow> pvalue" where
  "field cols col r = r ! index_of col cols"

definition required_cols :: "string list" where
  "required_cols =
     [''fee_range_max'', ''fee_range_min'', ''input_count'', ''output_count'',
      ''total_fees'', ''tx_count'']"

definition first_occurrences :: "'a list \<Rightarrow> 'a list \<Rightarrow> 'a list" where
  "first_occurrences seen xs = map fst (filter snd (zip xs (map Not (duplicated seen xs))))"

definition nonneg_row :: "string list \<Rightarrow> pvalue list \<Rightarrow> bool" where
  "nonneg_row cols r =
     (\<forall>c \<in> set numeric_cols. c \<in> set cols \<longrightarrow> vge_zero (field cols c r))"

definition cleaned_rows :: "dataframe \<Rightarrow> pvalue list list" where
  "cleaned_rows df =
     filter (nonneg_row (columns df))
       (first_occurrences [] (filter (\<lambda>r. \<not> list_ex isna r) (rows df)))"

definition row_fee_spread :: "string list \<Rightarrow> pvalue list \<Rightarrow> pvalue" where
  "row_fee_spread cols r =
     vsub (field cols ''fee_range_max'' r) (field cols ''fee_range_min'' r)"

definition row_tx_complexity :: "string list \<Rightarrow> pvalue list \<Rightarrow> pvalue" where
  "row_tx_complexity cols r =
     vadd (field cols ''input_count'' r) (field cols ''output_count'' r)"

definition row_fee_per_tx :: "string list \<Rightarrow> pvalue list \<Rightarrow> pvalue" where
  "row_fee_per_tx cols r =
     F64 (vdiv (field cols ''total_fees'' r) (vadd_one (field cols ''tx_count'' r)))"

definition row_suspicious :: "fval \<Rightarrow> fval \<Rightarrow> fval \<Rightarrow> string list \<Rightarrow> pvalue list \<Rightarrow> bool" where
  "row_suspicious t1 t2 t3 cols r =
     (fgt (to_float (row_fee_spread cols r)) t1 \<or> fgt (to_float (row_tx_complexity cols r)) t2 \<or>
      fgt (to_float (row_fee_per_tx cols r)) t3)"

definition risk_formula ::
  "pvalue \<Rightarrow> pvalue \<Rightarrow> pvalue \<Rightarrow> pvalue \<Rightarrow> pvalue \<Rightarrow> pvalue \<Rightarrow> fval" where
  "risk_formula x1 m1 x2 m2 x3 m3 =
     fround 3
       (fadd (fadd (fmul (rnd (4 / 10)) (vdiv x1 m1)) (fmul (rnd (3 / 10)) (vdiv x2 m2)))
             (fmul (rnd (3 / 10)) (vdiv x3 m3)))"

definition row_risk :: "pvalue \<Rightarrow> pvalue \<Rightarrow> pvalue \<Rightarrow> string list \<Rightarrow> pvalue list \<Rightarrow> fval" where
  "row_risk m1 m2 m3 cols r =
     risk_formula (row_fee_spread cols r) m1 (row_tx_complexity cols r) m2
       (row_fee_per_tx cols r) m3"

section \<open>Example frames\<close>

definition sample_frame :: dataframe where
  "sample_frame =
     \<lparr>columns = [''height'', ''tx_count'', ''total_fees'', ''fee_range_min'',
                 ''fee_range_max'', ''input_count'', ''output_count''],
      rows = [[I64 1, I64 4, F64 (Fin 50), F64 (Fin 20), F64 (Fin 100), I64 3, I64 2],
              [I64 2, I64 0, F64 (Fin 10), F64 (Fin 5), F64 (Fin 10), I64 1, I64 1],
              [I64 3, I64 1, F64 NaN, F64 (Fin 5), F64 (Fin 10), I64 1, I64 1],
              [I64 2, I64 0, F64 (Fin 10), F64 (Fin 5), F64 (Fin 10), I64 1, I64 1],
              [I64 4, I64 1, F64 (Fin 8), F64 (Fin (- 5)), F64 (Fin 10), I64 1, I64 1],
              [I64 5, I64 (- 1), F64 (Fin 8), F64 (Fin 5), F64 (Fin 10), I64 1, I64 1],
              [I64 6, I64 1, F64 PInf, F64 (Fin 5), F64 (Fin 10), I64 1, I64 1]]\<rparr>"


definition missing_cols_frame :: dataframe where
  "missing_cols_frame =
     \<lparr>columns = [''height'', ''total_fees'', ''fee_range_min'', ''fee_range_max'',
                 ''output_count''],
      rows = [[I64 1, F64 (Fin 50), F64 (Fin 20), F64 (Fin 100), I64 2],
              [I64 2, F64 (Fin 10), F64 (Fin 5), F64 (Fin 10), I64 1]]\<rparr>"

text \<open>The rounding of \<open>rnd\<close> before the test for overflow.\<close>

definition round_real :: "real \<Rightarrow> real" where
  "round_real x = of_int (rint (x / 2 powi float_exp x)) * 2 powi float_exp x"

text \<open>The first of the six feature inputs, in the order lines 46 to 48 read them, that is
  not in a header.\<close>

definition first_missing :: "string list \<Rightarrow> string" where
  "first_missing cols = hd (filter (\<lambda>c. c \<notin> set cols) required_cols)"


section \<open>Properties\<close>


subsection \<open>Cleaning\<close>


lemma boolean_index_filter: "map fst (filter snd (zip xs (map P xs))) = filter P xs"
  by (induction xs) auto

lemma getcol_present:
  "col \<in> set (columns df) \<Longrightarrow> getcol df col = Inr (map (field (columns df) col) (rows df))"
  by (simp add: getcol_def field_def)

lemma getcol_absent: "col \<notin> set (columns df) \<Longrightarrow> getcol df col = Inl (KeyError col)"
  by (simp add: getcol_def)

lemma keep_nonneg_present:
  "col \<in> set (columns df) \<Longrightarrow>
   keep_nonneg col df =
     Inr (df\<lparr>rows := filter (\<lambda>r. vge_zero (field (columns df) col r)) (rows df)\<rparr>)"
  using boolean_index_filter[of "rows df" "\<lambda>r. vge_zero (field (columns df) col r)"]
  by (simp add: keep_nonneg_def getcol_present boolean_index_def comp_def)

lemma filter_nonneg_present:
  "set cols \<subseteq> set (columns df) \<Longrightarrow>
   filter_nonneg cols df =
     Inr (df\<lparr>rows :=
          filter (\<lambda>r. \<forall>c \<in> set cols. vge_zero (field (columns df) c r)) (rows df)\<rparr>)"
proof (induction cols arbitrary: df)
  case Nil
  then show ?case by simp
next
  case (Cons c cols)
  let ?df' = "df\<lparr>rows := filter (\<lambda>r. vge_zero (field (columns df) c r)) (rows df)\<rparr>"
  have "filter_nonneg (c # cols) df = filter_nonneg cols ?df'"
    using Cons.prems by (simp add: keep_nonneg_present)
  also have "\<dots> =
      Inr (?df'\<lparr>rows :=
           filter (\<lambda>r. \<forall>c \<in> set cols. vge_zero (field (columns ?df') c r)) (rows ?df')\<rparr>)"
    using Cons.prems by (intro Cons.IH) simp
  finally show ?case
    by (auto intro!: filter_cong simp: conj_commute)
qed

lemma set_first_occurrences: "set (first_occurrences seen xs) = set xs - set seen"
  by (induction xs arbitrary: seen) (auto simp: first_occurrences_def)

lemma distinct_first_occurrences: "distinct (first_occurrences seen xs)"
proof (induction xs arbitrary: seen)
  case Nil
  then show ?case by (simp add: first_occurrences_def)
next
  case (Cons x xs)
  have "x \<notin> set (first_occurrences (x # seen) xs)"
    by (simp add: set_first_occurrences)
  with Cons[of "x # seen"] show ?case
    by (simp add: first_occurrences_def)
qed

lemma clean_eq: "clean df = Inr (df\<lparr>rows := cleaned_rows df\<rparr>)"
proof -
  let ?df2 = "drop_duplicates (dropna df)"
  let ?cols = "filter (\<lambda>col. col \<in> set (columns ?df2)) numeric_cols"
  have cols2: "columns ?df2 = columns df"
    by (simp add: drop_duplicates_def dropna_def boolean_index_def)
  have rows2: "rows ?df2 = first_occurrences [] (filter (\<lambda>r. \<not> list_ex isna r) (rows df))"
    by (simp add: drop_duplicates_def dropna_def boolean_index_def first_occurrences_def)
  have "clean df = filter_nonneg ?cols ?df2"
    by (simp add: clean_def Let_def)
  also have "\<dots> =
      Inr (?df2\<lparr>rows :=
           filter (\<lambda>r. \<forall>c \<in> set ?cols. vge_zero (field (columns ?df2) c r)) (rows ?df2)\<rparr>)"
    by (rule filter_nonneg_present) auto
  also have "(\<lambda>r. \<forall>c \<in> set ?cols. vge_zero (field (columns ?df2) c r)) =
      nonneg_row (columns df)"
    by (auto simp: nonneg_row_def fun_eq_iff cols2)
  finally show ?thesis
    by (simp add: rows2 cleaned_rows_def drop_duplicates_def dropna_def boolean_index_def
        first_occurrences_def)
qed

lemma vge_zero_iff:
  "vge_zero v \<longleftrightarrow>
     (\<exists>n. v = I64 n \<and> 0 \<le> sint n) \<or> (\<exists>x. v = F64 (Fin x) \<and> 0 \<le> x) \<or> v = F64 PInf"
proof (cases v)
  case (I64 n)
  then show ?thesis by simp
next
  case (F64 f)
  then show ?thesis by (cases f) simp_all
qed

lemma cleaned_rows_nonneg:
  assumes "r \<in> set (cleaned_rows df)" "c \<in> set numeric_cols" "c \<in> set (columns df)"
  shows "vge_zero (r ! index_of c (columns df))"
  using assms by (auto simp: cleaned_rows_def nonneg_row_def field_def)

lemma cleaned_rows_subset:
  "set (cleaned_rows df) \<subseteq> {r \<in> set (rows df). \<forall>v \<in> set r. \<not> isna v}"
  by (auto simp: cleaned_rows_def set_first_occurrences list_ex_iff)

lemma distinct_cleaned_rows: "distinct (cleaned_rows df)"
  by (simp add: cleaned_rows_def distinct_first_occurrences)


text \<open>
  Claim C7. For every input table the cleaning stage returns a frame (it raises nothing,
  whether or not the whitelisted columns are in the header: an absent one is skipped),
  with the same header and rows taken from the input, in which no row has a missing
  value, no two rows are equal, and every whitelisted column that is in the header holds
  in every row a value that is at least 0: a non-negative \<^verbatim>\<open>int64\<close>, a non-negative
  finite float64 or the positive infinity.
\<close>

theorem clean_invariant:
  "\<exists>df. clean raw = Inr df \<and> columns df = columns raw \<and> set (rows df) \<subseteq> set (rows raw) \<and>
        (\<forall>r \<in> set (rows df). F64 NaN \<notin> set r) \<and>
        distinct (rows df) \<and>
        (\<forall>c \<in> set numeric_cols. c \<in> set (columns raw) \<longrightarrow>
           (\<forall>r \<in> set (rows df).
              (\<exists>n. r ! index_of c (columns raw) = I64 n \<and> 0 \<le> sint n) \<or>
              (\<exists>x. r ! index_of c (columns raw) = F64 (Fin x) \<and> 0 \<le> x) \<or>
              r ! index_of c (columns raw) = F64 PInf))"
proof (intro exI conjI)
  show "clean raw = Inr (raw\<lparr>rows := cleaned_rows raw\<rparr>)"
    by (rule clean_eq)
  show "\<forall>c \<in> set numeric_cols. c \<in> set (columns raw) \<longrightarrow>
      (\<forall>r \<in> set (rows (raw\<lparr>rows := cleaned_rows raw\<rparr>)).
         (\<exists>n. r ! index_of c (columns raw) = I64 n \<and> 0 \<le> sint n) \<or>
         (\<exists>x. r ! index_of c (columns raw) = F64 (Fin x) \<and> 0 \<le> x) \<or>
         r ! index_of c (columns raw) = F64 PInf)"
    using cleaned_rows_nonneg[of _ raw] by (simp add: vge_zero_iff)
  show "\<forall>r \<in> set (rows (raw\<lparr>rows := cleaned_rows raw\<rparr>)). F64 NaN \<notin> set r"
    using cleaned_rows_subset[of raw] by (auto simp: isna_def)
qed (use cleaned_rows_subset[of raw] distinct_cleaned_rows[of raw] in auto)

theorem clean_invariant_witness:
  "clean sample_frame =
     Inr \<lparr>columns = [''height'', ''tx_count'', ''total_fees'', ''fee_range_min'',
                     ''fee_range_max'', ''input_count'', ''output_count''],
          rows = [[I64 1, I64 4, F64 (Fin 50), F64 (Fin 20), F64 (Fin 100), I64 3, I64 2],
                  [I64 2, I64 0, F64 (Fin 10), F64 (Fin 5), F64 (Fin 10), I64 1, I64 1],
                  [I64 6, I64 1, F64 PInf, F64 (Fin 5), F64 (Fin 10), I64 1, I64 1]]\<rparr> \<and>
   ''fee_range_min'' \<in> set numeric_cols \<and>
   ''fee_range_min'' \<in> set (columns sample_frame) \<and>
   ''size'' \<in> set numeric_cols \<and>
   ''size'' \<notin> set (columns sample_frame)"
  using clean_invariant[of sample_frame]
  by (simp add: clean_def sample_frame_def dropna_def drop_duplicates_def boolean_index_def
      numeric_cols_def keep_nonneg_def getcol_def isna_def)

subsection \<open>Rounding\<close>

text \<open>Rounding to integers.\<close>

lemma rint_cases:
  "rint x = \<lfloor>x\<rfloor> \<or> rint x = \<lfloor>x\<rfloor> + 1"
  by (simp add: rint_def Let_def)

lemma rint_bounds: "\<bar>x - of_int (rint x)\<bar> \<le> 1 / 2"
  unfolding rint_def Let_def by (auto simp: abs_real_def) linarith+

lemma rint_of_int [simp]: "rint (of_int n) = n"
  by (simp add: rint_def)

lemma rint_0 [simp]: "rint 0 = 0"
  using rint_of_int[of 0] by simp

lemma rint_pow2 [simp]: "rint (2 ^ n) = 2 ^ n"
  using rint_of_int[of "2 ^ n"] by simp

lemma rint_mono: "x \<le> y \<Longrightarrow> rint x \<le> rint y"
proof -
  assume xy: "x \<le> y"
  then have fl: "\<lfloor>x\<rfloor> \<le> \<lfloor>y\<rfloor>" by (rule floor_mono)
  show ?thesis
  proof (cases "\<lfloor>x\<rfloor> = \<lfloor>y\<rfloor>")
    case True
    with xy show ?thesis
      by (auto simp: rint_def Let_def)
  next
    case False
    with fl have "\<lfloor>x\<rfloor> + 1 \<le> \<lfloor>y\<rfloor>" by simp
    moreover have "rint x \<le> \<lfloor>x\<rfloor> + 1" using rint_cases[of x] by auto
    moreover have "\<lfloor>y\<rfloor> \<le> rint y" using rint_cases[of y] by auto
    ultimately show ?thesis by linarith
  qed
qed

lemma rint_minus: "rint (- x) = - rint x"
proof (cases "x \<in> \<int>")
  case True
  then obtain n where "x = of_int n" by (auto elim: Ints_cases)
  then show ?thesis
    by (metis of_int_minus rint_of_int)
next
  case False
  have ne: "x \<noteq> of_int \<lfloor>x\<rfloor>"
    using False Ints_of_int[of "\<lfloor>x\<rfloor>"] by metis
  then have fl: "\<lfloor>- x\<rfloor> = - \<lfloor>x\<rfloor> - 1"
    by (simp add: floor_minus ceiling_altdef)
  from ne have fr: "x - of_int \<lfloor>x\<rfloor> \<noteq> 0"
    by simp
  show ?thesis
    unfolding rint_def Let_def fl
    using fr by (auto simp: algebra_simps)
qed

text \<open>The binary exponent.\<close>

lemma pow2_less_D: "(2::real) powi a < 2 powi b \<Longrightarrow> a < b"
  using power_int_increasing[of b a "2::real"] by (cases "a < b") auto

lemma pow2_le_D: "(2::real) powi a \<le> 2 powi b \<Longrightarrow> a \<le> b"
  using power_int_strict_increasing[of b a "2::real"] by (cases "a \<le> b") auto

lemma pow2_mono: "a \<le> b \<Longrightarrow> (2::real) powi a \<le> 2 powi b"
  by (rule power_int_increasing) simp_all

lemma pow2_nat: "0 \<le> a \<Longrightarrow> (2::real) powi a = 2 ^ nat a"
  by (simp add: power_int_def)

lemma pow2_neg: "0 \<le> a \<Longrightarrow> (2::real) powi (- a) = 1 / 2 ^ nat a"
  by (simp add: power_int_minus_divide pow2_nat)

lemma ilog2_bounds:
  assumes "0 < x"
  shows "2 powi (ilog2 x) \<le> x" and "x < 2 powi (ilog2 x + 1)"
proof -
  have "2 powi (ilog2 x) \<le> x \<and> x < 2 powi (ilog2 x + 1)"
  proof (cases "1 \<le> x")
    case True
    let ?n = "\<lfloor>x\<rfloor>"
    from True have n: "0 < ?n" by simp
    from n have b1: "1 \<le> bitlen ?n" by (auto simp: bitlen_alt_def)
    from bitlen_bounds[OF n] have lo: "2 ^ nat (bitlen ?n - 1) \<le> ?n" and hi: "?n < 2 ^ nat (bitlen ?n)"
      by auto
    have "(2::real) powi (bitlen ?n - 1) = 2 ^ nat (bitlen ?n - 1)"
      using b1 by (simp add: pow2_nat)
    also have "\<dots> \<le> of_int ?n"
      using lo by (metis of_int_le_iff of_int_numeral of_int_power)
    also have "\<dots> \<le> x" by simp
    finally have A: "2 powi (bitlen ?n - 1) \<le> x" .
    have "?n + 1 \<le> 2 ^ nat (bitlen ?n)" using hi by simp
    then have "of_int (?n + 1) \<le> (2::real) ^ nat (bitlen ?n)"
      by (metis of_int_le_iff of_int_numeral of_int_power)
    moreover have "x < of_int (?n + 1)" by linarith
    moreover have "(2::real) powi (bitlen ?n - 1 + 1) = 2 ^ nat (bitlen ?n)"
      using b1 by (simp add: pow2_nat)
    ultimately have B: "x < 2 powi (bitlen ?n - 1 + 1)" by linarith
    from A B True show ?thesis by (simp add: ilog2_def)
  next
    case False
    let ?y = "1 / x"
    let ?N = "\<lceil>?y\<rceil>"
    from False assms have y1: "1 < ?y" by simp
    then have N2: "2 \<le> ?N" by (simp add: le_ceiling_iff)
    let ?m = "bitlen (?N - 1)"
    from N2 have p: "0 < ?N - 1" by simp
    then have m1: "1 \<le> ?m" by (auto simp: bitlen_alt_def)
    from bitlen_bounds[OF p] have lo: "2 ^ nat (?m - 1) \<le> ?N - 1" and hi: "?N - 1 < 2 ^ nat ?m"
      by auto
    have "?N \<le> 2 ^ nat ?m" using hi by simp
    then have "of_int ?N \<le> (2::real) ^ nat ?m"
      by (metis of_int_le_iff of_int_numeral of_int_power)
    then have "?y \<le> 2 ^ nat ?m" using le_of_int_ceiling[of ?y] by linarith
    then have "1 \<le> x * 2 ^ nat ?m" using assms by (simp add: field_simps)
    then have "1 / 2 ^ nat ?m \<le> x" by (simp add: field_simps)
    moreover have "(2::real) powi (- ?m) = 1 / 2 ^ nat ?m"
      using m1 by (simp add: pow2_neg)
    ultimately have A: "2 powi (- ?m) \<le> x" by simp
    have "of_int (?N - 1) < ?y" by linarith
    moreover have "(2::real) ^ nat (?m - 1) \<le> of_int (?N - 1)"
      using lo by (metis of_int_le_iff of_int_numeral of_int_power)
    ultimately have "2 ^ nat (?m - 1) < ?y" by linarith
    then have "x * 2 ^ nat (?m - 1) < 1" using assms by (simp add: field_simps)
    then have "x < 1 / 2 ^ nat (?m - 1)" by (simp add: field_simps)
    moreover have "(2::real) powi (- ?m + 1) = 1 / 2 ^ nat (?m - 1)"
      using pow2_neg[of "?m - 1"] m1 by simp
    ultimately have B: "x < 2 powi (- ?m + 1)" by simp
    from A B False show ?thesis by (simp add: ilog2_def)
  qed
  then show "2 powi (ilog2 x) \<le> x" and "x < 2 powi (ilog2 x + 1)" by auto
qed

lemma ilog2_eq:
  assumes "2 powi k \<le> x" "x < 2 powi (k + 1)"
  shows "ilog2 x = k"
proof -
  have x: "0 < x" using assms(1) by (smt (verit) zero_less_power_int)
  note b = ilog2_bounds[OF x]
  have "2 powi k < (2::real) powi (ilog2 x + 1)" using assms(1) b(2) by linarith
  then have "k < ilog2 x + 1" by (rule pow2_less_D)
  moreover have "2 powi (ilog2 x) < (2::real) powi (k + 1)" using assms(2) b(1) by linarith
  then have "ilog2 x < k + 1" by (rule pow2_less_D)
  ultimately show ?thesis by simp
qed


text \<open>Rounding to a double.\<close>

lemma rnd_round_real:
  "rnd x = (if 2 ^ 1024 \<le> \<bar>round_real x\<bar> then inf_of_sign (0 < x) else Fin (round_real x))"
  by (simp add: rnd_def round_real_def Let_def)

lemma float_exp_minus [simp]: "float_exp (- x) = float_exp x"
  by (simp add: float_exp_def)

lemma float_exp_ge: "- 1074 \<le> float_exp x"
  by (simp add: float_exp_def)

lemma round_real_minus: "round_real (- x) = - round_real x"
  by (simp add: round_real_def rint_minus)

lemma round_real_0 [simp]: "round_real 0 = 0"
  by (simp add: round_real_def)

lemma ilog2_mono:
  assumes "0 < x" "x \<le> y"
  shows "ilog2 x \<le> ilog2 y"
proof -
  from assms have y: "0 < y" by simp
  have "2 powi (ilog2 x) \<le> x" using ilog2_bounds(1)[OF assms(1)] .
  also have "x \<le> y" by fact
  also have "y < 2 powi (ilog2 y + 1)" using ilog2_bounds(2)[OF y] .
  finally have "ilog2 x < ilog2 y + 1" by (rule pow2_less_D)
  then show ?thesis by simp
qed

lemma float_exp_pos: "0 < x \<Longrightarrow> float_exp x = max (ilog2 x - 52) (- 1074)"
  by (simp add: float_exp_def)

lemma round_real_upper:
  assumes "0 < x" "x \<le> 2 powi j" "float_exp x \<le> j"
  shows "round_real x \<le> 2 powi j"
proof -
  let ?e = "float_exp x"
  have p: "(0::real) < 2 powi ?e" by simp
  have "x / 2 powi ?e \<le> 2 powi j / 2 powi ?e"
    using assms(2) p by (simp add: divide_right_mono)
  also have "2 powi j / 2 powi ?e = (2::real) powi (j - ?e)"
    by (simp add: power_int_diff)
  also have "\<dots> = of_int (2 ^ nat (j - ?e))"
    using assms(3) by (simp add: pow2_nat)
  finally have "rint (x / 2 powi ?e) \<le> rint (of_int (2 ^ nat (j - ?e)))"
    by (rule rint_mono)
  then have "rint (x / 2 powi ?e) \<le> 2 ^ nat (j - ?e)"
    by simp
  then have "real_of_int (rint (x / 2 powi ?e)) \<le> 2 ^ nat (j - ?e)"
    by (metis of_int_le_iff of_int_numeral of_int_power)
  then have "round_real x \<le> 2 ^ nat (j - ?e) * 2 powi ?e"
    unfolding round_real_def using p by (simp add: mult_right_mono)
  also have "(2::real) ^ nat (j - ?e) * 2 powi ?e = 2 powi (j - ?e) * 2 powi ?e"
    using assms(3) by (simp add: pow2_nat)
  also have "\<dots> = 2 powi j"
    by (simp add: power_int_add[symmetric])
  finally show ?thesis .
qed

lemma round_real_lower:
  assumes "0 < y" "2 powi j \<le> y" "float_exp y \<le> j"
  shows "2 powi j \<le> round_real y"
proof -
  let ?e = "float_exp y"
  have p: "(0::real) < 2 powi ?e" by simp
  have "(2::real) powi j = 2 powi (j - ?e) * 2 powi ?e"
    by (simp add: power_int_add[symmetric])
  also have "(2::real) powi (j - ?e) = of_int (2 ^ nat (j - ?e))"
    using assms(3) by (simp add: pow2_nat)
  finally have j: "(2::real) powi j = of_int (2 ^ nat (j - ?e)) * 2 powi ?e" .
  have "2 powi j / 2 powi ?e \<le> y / 2 powi ?e"
    using assms(2) p by (simp add: divide_right_mono)
  then have "real_of_int (2 ^ nat (j - ?e)) \<le> y / 2 powi ?e"
    unfolding j using p by simp
  then have "rint (of_int (2 ^ nat (j - ?e))) \<le> rint (y / 2 powi ?e)"
    by (rule rint_mono)
  then have "(2::int) ^ nat (j - ?e) \<le> rint (y / 2 powi ?e)"
    by simp
  then have "real_of_int (2 ^ nat (j - ?e)) \<le> real_of_int (rint (y / 2 powi ?e))"
    by (simp only: of_int_le_iff)
  then have "real_of_int (2 ^ nat (j - ?e)) * 2 powi ?e \<le> round_real y"
    unfolding round_real_def using p by (simp add: mult_right_mono)
  then show ?thesis
    unfolding j .
qed

lemma round_real_nonneg: "0 \<le> x \<Longrightarrow> 0 \<le> round_real x"
proof -
  assume "0 \<le> x"
  then have "0 \<le> x / 2 powi float_exp x" by simp
  then have "rint 0 \<le> rint (x / 2 powi float_exp x)"
    by (rule rint_mono)
  then show ?thesis
    by (simp add: round_real_def)
qed

lemma round_real_mono_pos:
  assumes "0 < x" "x \<le> y"
  shows "round_real x \<le> round_real y"
proof -
  from assms have y: "0 < y" by simp
  have e: "float_exp x \<le> float_exp y"
    using ilog2_mono[OF assms] assms y by (simp add: float_exp_pos)
  show ?thesis
  proof (cases "float_exp x = float_exp y")
    case True
    have "x / 2 powi float_exp y \<le> y / 2 powi float_exp y"
      using assms(2) by (simp add: divide_right_mono)
    then have "rint (x / 2 powi float_exp y) \<le> rint (y / 2 powi float_exp y)"
      by (rule rint_mono)
    then show ?thesis
      by (simp add: round_real_def True mult_right_mono)
  next
    case False
    with e have lt: "float_exp x < float_exp y" by simp
    let ?k = "ilog2 y"
    have ey: "float_exp y = ?k - 52"
      using lt float_exp_ge[of x] y by (simp add: float_exp_pos max_def split: if_splits)
    have kx: "ilog2 x < ?k"
      using lt assms(1) y by (simp add: float_exp_pos max_def split: if_splits)
    have "x < 2 powi (ilog2 x + 1)" using ilog2_bounds(2)[OF assms(1)] .
    also have "\<dots> \<le> 2 powi ?k" using kx by (intro pow2_mono) simp
    finally have xk: "x \<le> 2 powi ?k" by simp
    have "round_real x \<le> 2 powi ?k"
      using assms(1) xk lt ey by (intro round_real_upper) simp_all
    also have "2 powi ?k \<le> round_real y"
      using y ilog2_bounds(1)[OF y] ey by (intro round_real_lower) simp_all
    finally show ?thesis .
  qed
qed

lemma round_real_mono:
  assumes "x \<le> y"
  shows "round_real x \<le> round_real y"
proof -
  consider "0 < x" | "x \<le> 0" "0 \<le> y" | "y < 0" by linarith
  then show ?thesis
  proof cases
    case 1
    then show ?thesis using assms by (rule round_real_mono_pos)
  next
    case 2
    have "round_real x \<le> 0"
      using round_real_nonneg[of "- x"] 2(1) by (simp add: round_real_minus)
    also have "0 \<le> round_real y" using 2(2) by (rule round_real_nonneg)
    finally show ?thesis .
  next
    case 3
    then have "0 < - y" "- y \<le> - x" using assms by simp_all
    from round_real_mono_pos[OF this] show ?thesis
      by (simp add: round_real_minus)
  qed
qed

lemma round_real_exact:
  assumes "\<bar>m\<bar> < 2 ^ 53" "- 1074 \<le> j"
  shows "round_real (of_int m * 2 powi j) = of_int m * 2 powi j"
proof (cases "m = 0")
  case True
  then show ?thesis by simp
next
  case False
  let ?x = "real_of_int m * 2 powi j"
  have ax: "\<bar>?x\<bar> = of_int \<bar>m\<bar> * 2 powi j"
    by (simp add: abs_mult)
  have pos: "0 < \<bar>?x\<bar>" using False by simp
  have "real_of_int \<bar>m\<bar> < 2 ^ 53"
    using assms(1) by (metis of_int_less_iff of_int_numeral of_int_power)
  then have "\<bar>?x\<bar> < 2 ^ 53 * 2 powi j"
    unfolding ax by (simp add: mult_strict_right_mono)
  also have "\<dots> = 2 powi (53 + j)"
    by (simp add: power_int_add)
  finally have up: "\<bar>?x\<bar> < 2 powi (53 + j)" .
  have "2 powi (ilog2 \<bar>?x\<bar>) \<le> \<bar>?x\<bar>" using ilog2_bounds(1)[OF pos] .
  with up have "(2::real) powi (ilog2 \<bar>?x\<bar>) < 2 powi (53 + j)" by linarith
  then have "ilog2 \<bar>?x\<bar> < 53 + j" by (rule pow2_less_D)
  then have e: "float_exp ?x \<le> j"
    using assms(2) False by (simp add: float_exp_def)
  let ?e = "float_exp ?x"
  have "?x / 2 powi ?e = of_int m * 2 powi (j - ?e)"
    by (simp add: power_int_diff)
  also have "\<dots> = of_int (m * 2 ^ nat (j - ?e))"
    using e by (simp add: pow2_nat)
  finally have "rint (?x / 2 powi ?e) = m * 2 ^ nat (j - ?e)"
    by (simp only: rint_of_int)
  then have "round_real ?x = of_int (m * 2 ^ nat (j - ?e)) * 2 powi ?e"
    by (simp add: round_real_def)
  also have "\<dots> = of_int m * (2 powi (j - ?e) * 2 powi ?e)"
    using e by (simp add: pow2_nat)
  also have "\<dots> = ?x"
    by (simp add: power_int_add[symmetric])
  finally show ?thesis .
qed

lemma rnd_exact:
  assumes "\<bar>m\<bar> < 2 ^ 53" "- 1074 \<le> j" "j \<le> 971"
  shows "rnd (of_int m * 2 powi j) = Fin (of_int m * 2 powi j)"
proof -
  let ?x = "real_of_int m * 2 powi j"
  have "real_of_int \<bar>m\<bar> < 2 ^ 53"
    using assms(1) by (metis of_int_less_iff of_int_numeral of_int_power)
  moreover have "(2::real) powi j \<le> 2 powi 971"
    using assms(3) by (rule pow2_mono)
  ultimately have "real_of_int \<bar>m\<bar> * 2 powi j < 2 ^ 53 * 2 powi 971"
    by (intro mult_less_le_imp_less) simp_all
  also have "(2::real) ^ 53 * 2 powi 971 = 2 ^ 1024"
    by simp
  finally have "\<bar>?x\<bar> < 2 ^ 1024"
    by (simp add: abs_mult)
  then show ?thesis
    by (simp add: rnd_round_real round_real_exact[OF assms(1,2)])
qed

lemma rnd_of_int: "\<bar>n\<bar> < 2 ^ 53 \<Longrightarrow> rnd (of_int n) = Fin (of_int n)"
  using rnd_exact[of n 0] by simp

lemma rnd_0 [simp]: "rnd 0 = Fin 0"
  using rnd_of_int[of 0] by simp

lemma rnd_1 [simp]: "rnd 1 = Fin 1"
  using rnd_of_int[of 1] by simp


lemma round_real_nonpos: "x \<le> 0 \<Longrightarrow> round_real x \<le> 0"
  using round_real_nonneg[of "- x"] by (simp add: round_real_minus)

lemma rnd_mono_aux:
  fixes a b x y M :: real
  assumes "a \<le> b" "x \<le> y" "0 < M"
    and "0 \<le> x \<Longrightarrow> 0 \<le> a" "x \<le> 0 \<Longrightarrow> a \<le> 0" "0 \<le> y \<Longrightarrow> 0 \<le> b" "y \<le> 0 \<Longrightarrow> b \<le> 0"
  shows "fge (if M \<le> \<bar>b\<bar> then inf_of_sign (0 < y) else Fin b)
             (if M \<le> \<bar>a\<bar> then inf_of_sign (0 < x) else Fin a)"
proof (cases "0 < x")
  case True
  then have "0 < y" "0 \<le> a" "0 \<le> b" using assms by auto
  then show ?thesis using True assms(1) by (auto simp: inf_of_sign_def)
next
  case False
  then have a: "a \<le> 0" using assms(5) by simp
  show ?thesis
  proof (cases "0 < y")
    case True
    then have "0 \<le> b" using assms(6) by simp
    then show ?thesis using a True False assms(1,3) by (auto simp: inf_of_sign_def)
  next
    case y: False
    then have "b \<le> 0" using assms(7) by simp
    then show ?thesis using a y False assms(1,3) by (auto simp: inf_of_sign_def)
  qed
qed

lemma rnd_mono:
  assumes "x \<le> y"
  shows "fge (rnd y) (rnd x)"
  unfolding rnd_round_real
  by (rule rnd_mono_aux[OF round_real_mono[OF assms] assms])
    (simp_all add: round_real_nonneg round_real_nonpos)

lemma rnd_eval:
  assumes "2 powi k \<le> \<bar>x\<bar>" "\<bar>x\<bar> < 2 powi (k + 1)" "- 1022 \<le> k" "k \<le> 1022"
    and "rint (x / 2 powi (k - 52)) = n"
  shows "rnd x = Fin (of_int n * 2 powi (k - 52))"
proof -
  have k: "ilog2 \<bar>x\<bar> = k"
    using assms(1,2) by (rule ilog2_eq)
  have x0: "x \<noteq> 0"
    using assms(1) by (smt (verit) zero_less_power_int)
  then have e: "float_exp x = k - 52"
    using assms(3) by (simp add: float_exp_def k)
  have r: "round_real x = of_int n * 2 powi (k - 52)"
    by (simp add: round_real_def e assms(5))
  have "\<bar>x\<bar> \<le> 2 powi (k + 1)" using assms(2) by simp
  moreover have "0 < \<bar>x\<bar>" using x0 by simp
  moreover have "float_exp \<bar>x\<bar> \<le> k + 1"
    using e by (simp add: float_exp_def)
  ultimately have "round_real \<bar>x\<bar> \<le> 2 powi (k + 1)"
    by (intro round_real_upper)
  moreover have "\<bar>round_real x\<bar> = round_real \<bar>x\<bar>"
    using round_real_nonneg[of x] round_real_nonpos[of x]
    by (cases "0 \<le> x") (auto simp: abs_real_def round_real_minus)
  moreover have "(2::real) powi (k + 1) \<le> 2 powi 1023"
    using assms(4) by (intro pow2_mono) simp
  moreover have "(2::real) powi 1023 < 2 ^ 1024"
    by simp
  ultimately have "\<bar>round_real x\<bar> < 2 ^ 1024"
    by linarith
  then show ?thesis
    by (simp add: rnd_round_real r)
qed


subsection \<open>The stages, row by row\<close>

lemma required_numeric: "set required_cols \<subseteq> set numeric_cols"
  by (simp add: numeric_cols_def required_cols_def)

lemma derive_features_present:
  assumes "set required_cols \<subseteq> set (columns df)"
  shows "derive_features df =
     Inr (map (row_fee_spread (columns df)) (rows df),
          map (row_tx_complexity (columns df)) (rows df),
          map (row_fee_per_tx (columns df)) (rows df))"
  using assms
  by (simp add: derive_features_def required_cols_def getcol_present map2_map_map
      row_fee_spread_def row_tx_complexity_def row_fee_per_tx_def)

lemma derive_features_absent:
  assumes "\<not> set required_cols \<subseteq> set (columns df)"
  shows "derive_features df =
     Inl (KeyError (hd (filter (\<lambda>c. c \<notin> set (columns df)) required_cols)))"
  using assms
  by (auto simp: derive_features_def required_cols_def getcol_def)

lemma percentile_fraction:
  assumes "90 \<le> p" "p \<le> 99"
  shows "fge (fdiv (Fin (of_int p)) (Fin 100)) (Fin 0)"
    and "fge (Fin 1) (fdiv (Fin (of_int p)) (Fin 100))"
proof -
  have "0 \<le> real_of_int p / 100" "real_of_int p / 100 \<le> 1"
    using assms by simp_all
  from rnd_mono[OF this(1)] rnd_mono[OF this(2)]
  show "fge (fdiv (Fin (of_int p)) (Fin 100)) (Fin 0)"
    and "fge (Fin 1) (fdiv (Fin (of_int p)) (Fin 100))"
    by simp_all
qed

lemma quantile_Inr:
  assumes "fge q (Fin 0)" "fge (Fin 1) q"
  shows "\<exists>t. quantile interp xs q = Inr t"
  using assms by (auto simp: quantile_def split: list.splits)

lemma flag_anomalies_map:
  assumes "flag_anomalies interp (map f1 rs) (map f2 rs) (map f3 rs) p = Inr (t1, t2, t3, flags)"
  shows "quantile interp (map f1 rs) (fdiv (Fin (of_int p)) (Fin 100)) = Inr t1"
    and "quantile interp (map f2 rs) (fdiv (Fin (of_int p)) (Fin 100)) = Inr t2"
    and "quantile interp (map f3 rs) (fdiv (Fin (of_int p)) (Fin 100)) = Inr t3"
    and "flags = map (\<lambda>r. fgt (to_float (f1 r)) t1 \<or> fgt (to_float (f2 r)) t2 \<or>
                          fgt (to_float (f3 r)) t3) rs"
  using assms
  by (auto simp: flag_anomalies_def Let_def map2_map_map split: sum.splits)

lemma flag_anomalies_Inr:
  assumes "90 \<le> p" "p \<le> 99"
  shows "\<exists>x. flag_anomalies interp xs ys zs p = Inr x"
proof -
  let ?q = "fdiv (Fin (of_int p)) (Fin 100)"
  note q = percentile_fraction[OF assms]
  obtain t1 t2 t3 where "quantile interp xs ?q = Inr t1" "quantile interp ys ?q = Inr t2"
    "quantile interp zs ?q = Inr t3"
    using quantile_Inr[OF q] by metis
  then show ?thesis
    by (simp add: flag_anomalies_def Let_def)
qed

lemma score_risk_map:
  "score_risk (map f1 rs) (map f2 rs) (map f3 rs) =
     map (\<lambda>r. risk_formula (f1 r) (smax (map f1 rs)) (f2 r) (smax (map f2 rs))
                 (f3 r) (smax (map f3 rs))) rs"
  by (simp add: score_risk_def map2_map_map risk_formula_def)

lemma run_pipeline_present:
  assumes "set required_cols \<subseteq> set (columns raw)"
  shows "run_pipeline interp raw p =
     (case flag_anomalies interp
             (map (row_fee_spread (columns raw)) (cleaned_rows raw))
             (map (row_tx_complexity (columns raw)) (cleaned_rows raw))
             (map (row_fee_per_tx (columns raw)) (cleaned_rows raw)) p of
        Inl e \<Rightarrow> Inl e
      | Inr (t1, t2, t3, flags) \<Rightarrow>
          Inr \<lparr>frame = raw\<lparr>rows := cleaned_rows raw\<rparr>,
               fee_spread = map (row_fee_spread (columns raw)) (cleaned_rows raw),
               tx_complexity = map (row_tx_complexity (columns raw)) (cleaned_rows raw),
               fee_per_tx = map (row_fee_per_tx (columns raw)) (cleaned_rows raw),
               fee_spread_thresh = t1, complexity_thresh = t2, fee_tx_thresh = t3,
               suspicious = flags,
               risk_score =
                 score_risk (map (row_fee_spread (columns raw)) (cleaned_rows raw))
                   (map (row_tx_complexity (columns raw)) (cleaned_rows raw))
                   (map (row_fee_per_tx (columns raw)) (cleaned_rows raw))\<rparr>)"
  using assms by (simp add: run_pipeline_def clean_eq derive_features_present)

lemma run_pipeline_returns:
  assumes req: "set required_cols \<subseteq> set (columns raw)" and p: "90 \<le> p" "p \<le> 99"
  shows "\<exists>t1 t2 t3.
     quantile interp (map (row_fee_spread (columns raw)) (cleaned_rows raw))
       (fdiv (Fin (of_int p)) (Fin 100)) = Inr t1 \<and>
     quantile interp (map (row_tx_complexity (columns raw)) (cleaned_rows raw))
       (fdiv (Fin (of_int p)) (Fin 100)) = Inr t2 \<and>
     quantile interp (map (row_fee_per_tx (columns raw)) (cleaned_rows raw))
       (fdiv (Fin (of_int p)) (Fin 100)) = Inr t3 \<and>
     run_pipeline interp raw p =
       Inr \<lparr>frame = raw\<lparr>rows := cleaned_rows raw\<rparr>,
            fee_spread = map (row_fee_spread (columns raw)) (cleaned_rows raw),
            tx_complexity = map (row_tx_complexity (columns raw)) (cleaned_rows raw),
            fee_per_tx = map (row_fee_per_tx (columns raw)) (cleaned_rows raw),
            fee_spread_thresh = t1, complexity_thresh = t2, fee_tx_thresh = t3,
            suspicious = map (row_suspicious t1 t2 t3 (columns raw)) (cleaned_rows raw),
            risk_score =
              map (row_risk (smax (map (row_fee_spread (columns raw)) (cleaned_rows raw)))
                     (smax (map (row_tx_complexity (columns raw)) (cleaned_rows raw)))
                     (smax (map (row_fee_per_tx (columns raw)) (cleaned_rows raw)))
                     (columns raw))
                (cleaned_rows raw)\<rparr>"
proof -
  let ?rs = "cleaned_rows raw"
  let ?fs = "map (row_fee_spread (columns raw)) ?rs"
  let ?tc = "map (row_tx_complexity (columns raw)) ?rs"
  let ?fp = "map (row_fee_per_tx (columns raw)) ?rs"
  obtain x where x: "flag_anomalies interp ?fs ?tc ?fp p = Inr x"
    using flag_anomalies_Inr[OF p] by blast
  obtain t1 t2 t3 flags where xe: "x = (t1, t2, t3, flags)"
    by (cases x) auto
  note m = flag_anomalies_map[OF x[unfolded xe]]
  have "run_pipeline interp raw p =
       Inr \<lparr>frame = raw\<lparr>rows := ?rs\<rparr>, fee_spread = ?fs, tx_complexity = ?tc,
            fee_per_tx = ?fp, fee_spread_thresh = t1, complexity_thresh = t2,
            fee_tx_thresh = t3, suspicious = flags, risk_score = score_risk ?fs ?tc ?fp\<rparr>"
    by (simp add: run_pipeline_present[OF req] x xe)
  moreover have "flags = map (row_suspicious t1 t2 t3 (columns raw)) ?rs"
    using m(4) by (simp add: row_suspicious_def)
  moreover have "score_risk ?fs ?tc ?fp =
      map (row_risk (smax ?fs) (smax ?tc) (smax ?fp) (columns raw)) ?rs"
    by (simp add: score_risk_map row_risk_def)
  ultimately show ?thesis
    using m(1,2,3) by simp
qed

lemma first_missing_absent:
  assumes "\<not> set required_cols \<subseteq> set cols"
  shows "first_missing cols \<in> set required_cols" and "first_missing cols \<notin> set cols"
proof -
  from assms have ne: "filter (\<lambda>c. c \<notin> set cols) required_cols \<noteq> []"
    by (auto simp: filter_empty_conv)
  then have "first_missing cols \<in> set (filter (\<lambda>c. c \<notin> set cols) required_cols)"
    unfolding first_missing_def by (rule hd_in_set)
  then show "first_missing cols \<in> set required_cols" and "first_missing cols \<notin> set cols"
    by auto
qed

lemma run_pipeline_KeyError:
  assumes "\<not> set required_cols \<subseteq> set (columns raw)"
  shows "run_pipeline interp raw p = Inl (KeyError (first_missing (columns raw)))"
  using derive_features_absent[of "raw\<lparr>rows := cleaned_rows raw\<rparr>"] assms
  by (simp add: run_pipeline_def clean_eq first_missing_def)

subsection \<open>Arithmetic on cells\<close>


lemma rnd_neg_numeral:
  "(numeral n :: int) < 2 ^ 53 \<Longrightarrow> rnd (- numeral n) = Fin (- numeral n)"
  using rnd_of_int[of "- numeral n"] by simp

text \<open>
  On \<^verbatim>\<open>int64\<close> cells \<open>+\<close> and \<open>-\<close> give the exact sum and difference as long as it is an
  \<^verbatim>\<open>int64\<close>, and wrap around otherwise: \<open>9223372036854775807 + 1\<close> is
  \<open>- 9223372036854775808\<close>.
\<close>

lemma sint_int64_add:
  fixes a b :: "64 word"
  assumes "- (2 ^ 63) \<le> sint a + sint b" "sint a + sint b < 2 ^ 63"
  shows "sint (a + b) = sint a + sint b"
  using assms by (simp add: sint_word_ariths signed_take_bit_int_eq_self)

lemma sint_int64_sub:
  fixes a b :: "64 word"
  assumes "- (2 ^ 63) \<le> sint a - sint b" "sint a - sint b < 2 ^ 63"
  shows "sint (a - b) = sint a - sint b"
  using assms by (simp add: sint_word_ariths signed_take_bit_int_eq_self)

lemma int64_add_wraps:
  "vadd (I64 9223372036854775807) (I64 1) = I64 (- 9223372036854775808)"
  by simp

subsection \<open>Feature engineering\<close>



text \<open>
  Claim C6. When one of the six input columns is not in the header of the table, line 46,
  47 or 48 raises pandas' \<^verbatim>\<open>KeyError\<close> (the \<^verbatim>\<open>SchemaError\<close> of the specification) for the
  first missing one: the feature stage fails on the cleaned frame, and the run as a whole
  ends in that error, for every percentile, with no result.
\<close>

theorem missing_column_fails:
  assumes "c \<in> set required_cols" "c \<notin> set (columns raw)"
  shows "first_missing (columns raw) \<in> set required_cols \<and>
     first_missing (columns raw) \<notin> set (columns raw) \<and>
     derive_features raw = Inl (KeyError (first_missing (columns raw))) \<and>
     clean raw = Inr (raw\<lparr>rows := cleaned_rows raw\<rparr>) \<and>
     derive_features (raw\<lparr>rows := cleaned_rows raw\<rparr>) =
       Inl (KeyError (first_missing (columns raw))) \<and>
     run_pipeline interp raw p = Inl (KeyError (first_missing (columns raw)))"
proof -
  from assms have n: "\<not> set required_cols \<subseteq> set (columns raw)"
    by auto
  then have n': "\<not> set required_cols \<subseteq> set (columns (raw\<lparr>rows := cleaned_rows raw\<rparr>))"
    by simp
  show ?thesis
    using first_missing_absent[OF n] derive_features_absent[OF n] derive_features_absent[OF n']
      run_pipeline_KeyError[OF n, of interp p]
    by (simp add: clean_eq first_missing_def)
qed

theorem missing_column_fails_witness:
  "''input_count'' \<in> set required_cols \<and>
   ''input_count'' \<notin> set (columns missing_cols_frame) \<and>
   ''tx_count'' \<notin> set (columns missing_cols_frame) \<and>
   first_missing (columns missing_cols_frame) = ''input_count'' \<and>
   derive_features missing_cols_frame = Inl (KeyError ''input_count'') \<and>
   run_pipeline numpy_linear missing_cols_frame 95 = Inl (KeyError ''input_count'')"
  using missing_column_fails[of "''input_count''" missing_cols_frame numpy_linear 95]
  by (simp add: first_missing_def required_cols_def missing_cols_frame_def)

end
